theory Spec2Isabelle
  imports Complex_Main "HOL-Library.Sublist" "HOL-Library.AList"
begin

section \<open>The Portfolio page (frontend/src/pages/Portfolio.js)\<close>

text \<open>
  The page fetches \<open>/api/portfolio\<close>, keeps the assets whose \<open>amount\<close> is greater than
  zero, and renders the filtered list twenty rows at a time. An asset of the response is
  an object with the fields \<open>symbol\<close>, \<open>amount\<close> and \<open>value\<close>; the last one is called
  \<open>usd_value\<close> here. The numbers of the response are compared and divided, never computed
  with, so they are reals.
\<close>

record asset =
  symbol :: string
  amount :: real
  usd_value :: real

record portfolio_data =
  assets :: "asset list"
  totalValue :: real

text \<open>The three \<open>useState\<close> cells of the component; \<open>page\<close> starts at 1.\<close>

record portfolio_page =
  portfolio :: "portfolio_data option"
  error :: "string option"
  page :: int

definition initial_page :: portfolio_page where
  "initial_page = \<lparr>portfolio = None, error = None, page = 1\<rparr>"

text \<open>What \<open>await axios.get(...)\<close> gives: the response data, or an exception.\<close>

datatype 'a response = RequestFailed | Response 'a

definition itemsPerPage :: int where
  "itemsPerPage = 20"

text \<open>The message set in the \<open>catch\<close> branch (a Thai sentence in the source).\<close>

definition fetch_error_message :: string where
  "fetch_error_message = ''fetch failed''"

text \<open>
  \<open>fetchData\<close>: on success the assets are filtered with \<open>asset => asset.amount > 0\<close>, the
  rest of the response is spread unchanged and the error is cleared; on failure only the
  error is set.
\<close>

definition fetchData :: "portfolio_data response \<Rightarrow> portfolio_page \<Rightarrow> portfolio_page" where
  "fetchData r s =
     (case r of
        Response d \<Rightarrow>
          (let filteredAssets = filter (\<lambda>asset. amount asset > 0) (assets d)
           in s\<lparr>portfolio := Some (d\<lparr>assets := filteredAssets\<rparr>), error := None\<rparr>)
      | RequestFailed \<Rightarrow> s\<lparr>error := Some fetch_error_message\<rparr>)"

definition handlePageChange :: "int \<Rightarrow> portfolio_page \<Rightarrow> portfolio_page" where
  "handlePageChange p s = s\<lparr>page := p\<rparr>"

text \<open>
  \<open>Array.prototype.slice(start, end)\<close> on integers: a negative index counts from the end
  of the array, both indices are clamped to the array, and an empty range gives \<open>[]\<close>.
\<close>

definition slice_js :: "'a list \<Rightarrow> int \<Rightarrow> int \<Rightarrow> 'a list" where
  "slice_js xs start finish =
     (let len = int (length xs);
          k = (if start < 0 then max (len + start) 0 else min start len);
          final = (if finish < 0 then max (len + finish) 0 else min finish len)
      in take (nat (max (final - k) 0)) (drop (nat k) xs))"

text \<open>\<open>Math.ceil(portfolio.assets.length / itemsPerPage)\<close>.\<close>

definition totalPages :: "portfolio_data \<Rightarrow> int" where
  "totalPages pf = \<lceil>real (length (assets pf)) / real_of_int itemsPerPage\<rceil>"

definition startIndex :: "int \<Rightarrow> int" where
  "startIndex pg = (pg - 1) * itemsPerPage"

definition endIndex :: "int \<Rightarrow> int" where
  "endIndex pg = startIndex pg + itemsPerPage"

definition currentAssets :: "int \<Rightarrow> portfolio_data \<Rightarrow> asset list" where
  "currentAssets pg pf = slice_js (assets pf) (startIndex pg) (endIndex pg)"

text \<open>
  What the component returns: the alert while an error is set, the spinner while no
  portfolio has arrived, otherwise the card: the chip with the number of assets, one table
  row per element of \<open>currentAssets\<close>, and the pagination with \<open>totalPages\<close> pages.
\<close>

datatype view = ErrorAlert string | Spinner | AssetTable nat "asset list" int

definition render :: "portfolio_page \<Rightarrow> view" where
  "render s =
     (case error s of
        Some e \<Rightarrow> ErrorAlert e
      | None \<Rightarrow>
          (case portfolio s of
             None \<Rightarrow> Spinner
           | Some pf \<Rightarrow>
               AssetTable (length (assets pf)) (currentAssets (page s) pf) (totalPages pf)))"

text \<open>
  A response with 47 assets, of amounts -1, 0, 1, ..., 45; the first two are filtered out.
\<close>

definition sample_asset :: "nat \<Rightarrow> asset" where
  "sample_asset i = \<lparr>symbol = ''COIN'', amount = real i - 1, usd_value = 2 * real i\<rparr>"

definition sample_data :: portfolio_data where
  "sample_data = \<lparr>assets = map sample_asset [0..<47], totalValue = 2162\<rparr>"


section \<open>The bot-creation form of the Strategies page (\<open>handleFormChange\<close>)\<close>

text \<open>
  The form state is a tree of plain objects. A value is \<open>undefined\<close>, \<open>null\<close>, a plain
  object (the list of its own properties, read by key), or any other value (a boolean, a
  number, a string, an array, a function), of a type \<open>'x\<close> that the functions below never
  look into. The state of the form is itself a plain object, given by its properties.
  No object of the form state is shared between two places of the tree: the state is
  built from object literals and changed only by \<open>handleFormChange\<close>, whose callers store
  primitives and fresh arrays. The in-place assignment of the source is therefore the
  replacement of one subtree.
\<close>

datatype js_error = TypeError

datatype 'x jsval = JUndefined | JNull | JObject "(string \<times> 'x jsval) list" | JOther 'x

type_synonym 'x props = "(string \<times> 'x jsval) list"

text \<open>
  How a run of the updater ends below some value \<open>current\<close>: at the early
  \<open>return prev\<close>, with an exception, or after the assignment, with \<open>current\<close> as it is
  afterwards.
\<close>

datatype 'a outcome = ReturnPrev | Threw js_error | Updated 'a

text \<open>
  What the JavaScript engine contributes and the source does not show:
  \<^item> \<open>inherited k\<close>: what the prototype chain of a plain object gives for a name \<open>k\<close> that
    is not an own property (\<open>undefined\<close> for a name \<open>Object.prototype\<close> does not have);
  \<^item> \<open>exotic_get x k\<close>: the result of \<open>x[k]\<close> for a value \<open>x\<close> that is not a plain object
    (the length or a character of a string, an element of an array, \<open>undefined\<close> for a
    name that \<open>x\<close> and its prototypes do not have);
  \<^item> \<open>exotic_set x k v\<close>: the effect of \<open>x[k] = v\<close> on such a value: the value afterwards,
    or the exception (a \<open>TypeError\<close> for a write to a primitive in module code);
  \<^item> \<open>exotic_put x k c\<close>: such a value \<open>x\<close> after the value read from \<open>x[k]\<close> has become
    \<open>c\<close> by an assignment below it.
\<close>

record 'x engine =
  inherited :: "string \<Rightarrow> 'x jsval"
  exotic_get :: "'x \<Rightarrow> string \<Rightarrow> 'x jsval"
  exotic_set :: "'x \<Rightarrow> string \<Rightarrow> 'x jsval \<Rightarrow> js_error + 'x"
  exotic_put :: "'x \<Rightarrow> string \<Rightarrow> 'x jsval \<Rightarrow> 'x"

text \<open>\<open>path.split('.')\<close>: the pieces between the separators, never an empty array.\<close>

fun split_on :: "char \<Rightarrow> string \<Rightarrow> string list" where
  "split_on sep [] = [[]]"
| "split_on sep (c # cs) =
     (if c = sep then [] # split_on sep cs
      else (case split_on sep cs of w # ws \<Rightarrow> (c # w) # ws | [] \<Rightarrow> [[c]]))"

text \<open>
  \<open>obj[k]\<close> on a plain object: the own property, otherwise what the prototype chain gives
  for \<open>k\<close>.
\<close>

definition get_prop :: "(string \<Rightarrow> 'x jsval) \<Rightarrow> 'x props \<Rightarrow> string \<Rightarrow> 'x jsval" where
  "get_prop inh obj k = (case map_of obj k of Some v \<Rightarrow> v | None \<Rightarrow> inh k)"

text \<open>
  \<open>current[k]\<close> on any value: a property access on \<open>undefined\<close> or \<open>null\<close> throws a
  \<open>TypeError\<close>.
\<close>

fun read_prop :: "'x engine \<Rightarrow> 'x jsval \<Rightarrow> string \<Rightarrow> js_error + 'x jsval" where
  "read_prop e JUndefined k = Inl TypeError"
| "read_prop e JNull k = Inl TypeError"
| "read_prop e (JObject obj) k = Inr (get_prop (inherited e) obj k)"
| "read_prop e (JOther x) k = Inr (exotic_get e x k)"

text \<open>
  \<open>obj[k] = v\<close> on a plain object: an existing own property gets the new value, a
  missing one is added. The name \<open>__proto__\<close>, unless it is an own property, is the accessor
  of \<open>Object.prototype\<close>: assigning to it creates no own property.
\<close>

definition assign_own :: "'x props \<Rightarrow> string \<Rightarrow> 'x jsval \<Rightarrow> 'x props" where
  "assign_own obj k v =
     (if k = ''__proto__'' \<and> map_of obj k = None then obj else AList.update k v obj)"

text \<open>\<open>current[k] = v\<close> on any value: \<open>current\<close> afterwards, or the exception.\<close>

fun write_prop :: "'x engine \<Rightarrow> 'x jsval \<Rightarrow> string \<Rightarrow> 'x jsval \<Rightarrow> js_error + 'x jsval" where
  "write_prop e JUndefined k v = Inl TypeError"
| "write_prop e JNull k v = Inl TypeError"
| "write_prop e (JObject obj) k v = Inr (JObject (assign_own obj k v))"
| "write_prop e (JOther x) k v =
     (case exotic_set e x k v of Inl err \<Rightarrow> Inl err | Inr x' \<Rightarrow> Inr (JOther x'))"

text \<open>
  After the assignment below the child read from property \<open>k\<close>, the value still refers to
  that child, as it is now. A child that a plain object inherited is not a property of
  that object.
\<close>

definition replace_own :: "string \<Rightarrow> 'x jsval \<Rightarrow> 'x props \<Rightarrow> 'x props" where
  "replace_own k v obj = (if map_of obj k = None then obj else AList.update k v obj)"

fun write_back :: "'x engine \<Rightarrow> 'x jsval \<Rightarrow> string \<Rightarrow> 'x jsval \<Rightarrow> 'x jsval" where
  "write_back e (JObject obj) k child = JObject (replace_own k child obj)"
| "write_back e (JOther x) k child = JOther (exotic_put e x k child)"
| "write_back e current k child = current"

text \<open>
  The loop and the assignment of \<open>handleFormChange\<close>, from \<open>current\<close> on: \<open>ks\<close> are the keys
  \<open>keys[i]\<close> still to be read and \<open>lastk\<close> is \<open>keys[keys.length - 1]\<close>. Each round reads
  \<open>current[keys[i]]\<close> and returns \<open>prev\<close> if that is \<open>undefined\<close>; \<open>null\<close> is not
  \<open>undefined\<close>, so the walk goes on to it and the next property access throws. After the
  loop comes the assignment \<open>current[lastk] = value\<close>.
\<close>

fun descend ::
  "'x engine \<Rightarrow> string list \<Rightarrow> string \<Rightarrow> 'x jsval \<Rightarrow> 'x jsval \<Rightarrow> 'x jsval outcome" where
  "descend e [] lastk v current =
     (case write_prop e current lastk v of
        Inl err \<Rightarrow> Threw err
      | Inr current' \<Rightarrow> Updated current')"
| "descend e (k # ks) lastk v current =
     (case read_prop e current k of
        Inl err \<Rightarrow> Threw err
      | Inr JUndefined \<Rightarrow> ReturnPrev
      | Inr child \<Rightarrow>
          (case descend e ks lastk v child of
             Updated child' \<Rightarrow> Updated (write_back e current k child')
           | ReturnPrev \<Rightarrow> ReturnPrev
           | Threw err \<Rightarrow> Threw err))"

text \<open>
  The updater passed to \<open>setNewBotFormData\<close>: the new state, or the exception. The copy
  \<open>{ ...prev }\<close> has the own properties of \<open>prev\<close> as they are after the assignment; \<open>prev\<close>
  is a plain object and stays one.
\<close>

definition handleFormChange ::
  "'x engine \<Rightarrow> string \<Rightarrow> 'x jsval \<Rightarrow> 'x props \<Rightarrow> js_error + 'x props" where
  "handleFormChange e path v prev =
     (let keys = split_on CHR ''.'' path
      in case descend e (butlast keys) (last keys) v (JObject prev) of
           ReturnPrev \<Rightarrow> Inr prev
         | Updated (JObject s) \<Rightarrow> Inr s
         | Updated _ \<Rightarrow> Inr prev
         | Threw err \<Rightarrow> Inl err)"

text \<open>
  The field of the form state that a list of keys addresses: the own property reached
  through plain objects, if there is one.
\<close>

fun field :: "string list \<Rightarrow> 'x jsval \<Rightarrow> 'x jsval option" where
  "field [] v = Some v"
| "field (k # ks) (JObject obj) = (case map_of obj k of None \<Rightarrow> None | Some c \<Rightarrow> field ks c)"
| "field (k # ks) _ = None"

text \<open>
  The value of \<open>current\<close> after the loop has read the given keys one after the other, as
  \<open>current[k]\<close> gives them (own or inherited), or the exception of a read on \<open>undefined\<close>
  or \<open>null\<close>.
\<close>

fun read_path :: "'x engine \<Rightarrow> string list \<Rightarrow> 'x jsval \<Rightarrow> js_error + 'x jsval" where
  "read_path e [] current = Inr current"
| "read_path e (k # ks) current =
     (case read_prop e current k of Inl err \<Rightarrow> Inl err | Inr child \<Rightarrow> read_path e ks child)"

text \<open>
  The values that the form holds besides objects (\<open>LFun\<close> is a built-in function, by its
  name), and the initial state of \<open>newBotFormData\<close> as the component declares it.
\<close>

datatype leaf = LBool bool | LNum real | LStr string | LArr "string list" | LFun string

definition initialFormData :: "leaf props" where
  "initialFormData =
     [(''id'', JOther (LStr [])),
      (''config'', JObject
        [(''api_key'', JOther (LStr [])),
         (''api_secret'', JOther (LStr [])),
         (''is_testnet'', JOther (LBool True)),
         (''symbols'', JOther (LArr [''BTC/USDT''])),
         (''timeframe'', JOther (LStr ''5m'')),
         (''strategy'', JOther (LStr [])),
         (''strategy_params'', JObject []),
         (''max_position_percentage'', JOther (LNum (20 / 100))),
         (''max_trade_percentage'', JOther (LNum (5 / 100))),
         (''check_interval'', JOther (LNum 60)),
         (''maturity_level'', JOther (LNum 1))])]"

text \<open>
  \<open>Object.prototype\<close>, the prototype of every object literal: its own properties are
  built-in functions and the accessor \<open>__proto__\<close>, which on \<open>Object.prototype\<close> itself
  reads as \<open>null\<close>.
\<close>

definition object_prototype :: "leaf props" where
  "object_prototype =
     [(''constructor'', JOther (LFun ''Object'')),
      (''__defineGetter__'', JOther (LFun ''__defineGetter__'')),
      (''__defineSetter__'', JOther (LFun ''__defineSetter__'')),
      (''hasOwnProperty'', JOther (LFun ''hasOwnProperty'')),
      (''__lookupGetter__'', JOther (LFun ''__lookupGetter__'')),
      (''__lookupSetter__'', JOther (LFun ''__lookupSetter__'')),
      (''isPrototypeOf'', JOther (LFun ''isPrototypeOf'')),
      (''propertyIsEnumerable'', JOther (LFun ''propertyIsEnumerable'')),
      (''toString'', JOther (LFun ''toString'')),
      (''valueOf'', JOther (LFun ''valueOf'')),
      (''__proto__'', JNull),
      (''toLocaleString'', JOther (LFun ''toLocaleString''))]"

text \<open>
  What a plain object inherits: the properties of \<open>Object.prototype\<close>; the accessor
  \<open>__proto__\<close> reads as the prototype of the object, which is \<open>Object.prototype\<close>.
\<close>

definition object_inherited :: "string \<Rightarrow> leaf jsval" where
  "object_inherited k =
     (if k = ''__proto__'' then JObject object_prototype
      else case map_of object_prototype k of Some v \<Rightarrow> v | None \<Rightarrow> JUndefined)"


section \<open>The Replay Buffer\<close>

text \<open>
  Modelled from the spec: the Replay Buffer of the reinforcement-learning agent is not
  among the sources. The spec describes it as a bounded store of capacity \<open>buffer_size\<close>
  with ring buffer semantics: insertion in constant time, eviction oldest-first once the
  capacity is reached. The record is the ring: the slots filled so far and the slot that
  the next transition goes to.
\<close>

record 'a replay_buffer =
  buffer_size :: nat
  storage :: "'a list"
  position :: nat

text \<open>Modelled from the spec: the empty Replay Buffer of capacity \<open>n\<close>.\<close>

definition empty_buffer :: "nat \<Rightarrow> 'a replay_buffer" where
  "empty_buffer n = \<lparr>buffer_size = n, storage = [], position = 0\<rparr>"

text \<open>
  Modelled from the spec: \<open>observe(transition)\<close> of the agent, which appends to the Replay
  Buffer. While the ring is not full the transition takes a new slot; afterwards it
  overwrites the slot at \<open>position\<close>, which holds the oldest one. A buffer of capacity 0
  stores nothing.
\<close>

definition observe :: "'a \<Rightarrow> 'a replay_buffer \<Rightarrow> 'a replay_buffer" where
  "observe t b =
     (if buffer_size b = 0 then b
      else b\<lparr>storage :=
               (if length (storage b) < buffer_size b then storage b @ [t]
                else (storage b)[position b := t]),
             position := (position b + 1) mod buffer_size b\<rparr>)"

text \<open>
  Modelled from the spec: the transitions the Replay Buffer holds, in insertion order: a
  full ring is read from \<open>position\<close>, the oldest slot, around to the slot before it.
\<close>

definition contents :: "'a replay_buffer \<Rightarrow> 'a list" where
  "contents b =
     (if length (storage b) < buffer_size b then storage b
      else drop (position b) (storage b) @ take (position b) (storage b))"

text \<open>Modelled from the spec: a sequence of calls of \<open>observe\<close>, first transition first.\<close>

fun observe_all :: "'a list \<Rightarrow> 'a replay_buffer \<Rightarrow> 'a replay_buffer" where
  "observe_all [] b = b"
| "observe_all (t # ts) b = observe_all ts (observe t b)"

text \<open>The shape of a ring that \<open>observe\<close> built, and the last \<open>n\<close> elements of a list.\<close>

definition ring_ok :: "'a replay_buffer \<Rightarrow> bool" where
  "ring_ok b \<longleftrightarrow>
     length (storage b) \<le> buffer_size b \<and>
     (if length (storage b) < buffer_size b then position b = length (storage b)
      else position b < buffer_size b \<or> buffer_size b = 0)"

definition retain :: "nat \<Rightarrow> 'a list \<Rightarrow> 'a list" where
  "retain n ts = drop (length ts - n) ts"


section \<open>Properties of the Portfolio page\<close>

lemma slice_js_nonneg:
  "0 \<le> a \<Longrightarrow> a \<le> b \<Longrightarrow> slice_js xs a b = take (nat (b - a)) (drop (nat a) xs)"
  unfolding slice_js_def Let_def
  by (cases "a \<le> int (length xs)"; cases "b \<le> int (length xs)") (auto simp: min_def max_def)

lemma slice_js_length: "0 \<le> c \<Longrightarrow> length (slice_js xs a (a + c)) \<le> nat c"
  unfolding slice_js_def Let_def
  by (auto simp: min_def max_def)

lemma currentAssets_page:
  assumes "1 \<le> p"
  shows "currentAssets p pf = take 20 (drop (20 * nat (p - 1)) (assets pf))"
proof -
  have "nat ((p - 1) * 20) = 20 * nat (p - 1)"
    using assms by (simp add: nat_mult_distrib)
  with assms show ?thesis
    by (simp add: currentAssets_def startIndex_def endIndex_def itemsPerPage_def slice_js_nonneg)
qed

lemma currentAssets_at_most: "length (currentAssets p pf) \<le> 20"
  using slice_js_length[where xs = "assets pf" and a = "startIndex p" and c = itemsPerPage]
  by (simp add: currentAssets_def endIndex_def itemsPerPage_def)

lemma totalPages_div: "totalPages pf = int ((length (assets pf) + 19) div 20)"
  unfolding totalPages_def itemsPerPage_def by linarith

lemma concat_chunks:
  "concat (map (\<lambda>j. take m (drop (m * j) xs)) [0..<k]) = take (m * k) xs"
proof (induction k)
  case 0
  then show ?case by simp
next
  case (Suc k)
  have "take (m * k) xs @ take m (drop (m * k) xs) = take (m * k + m) xs"
    by (simp add: take_add)
  with Suc show ?case by (simp add: add.commute)
qed

lemma pages_cover:
  "concat (map (\<lambda>j. currentAssets (int j + 1) pf) [0..<nat (totalPages pf)]) = assets pf"
proof -
  have "concat (map (\<lambda>j. currentAssets (int j + 1) pf) [0..<nat (totalPages pf)]) =
        concat (map (\<lambda>j. take 20 (drop (20 * j) (assets pf))) [0..<nat (totalPages pf)])"
    by (simp add: currentAssets_page)
  also have "\<dots> = take (20 * nat (totalPages pf)) (assets pf)"
    by (rule concat_chunks)
  also have "\<dots> = assets pf"
    by (simp add: totalPages_div)
  finally show ?thesis .
qed

text \<open>
  Claim C9. For every response of the portfolio API, the page keeps exactly the assets
  whose amount is greater than 0 (\<open>kept\<close>), in their order. For every page number \<open>p\<close>
  (a positive integer: the page starts at 1 and is changed only to a page that the
  pagination offers) the table shows the kept assets at the indices \<open>20 * (p - 1)\<close> to
  \<open>20 * p - 1\<close>, as far as they exist; no page has more than 20 rows. The pagination has
  \<open>\<lceil>n / 20\<rceil>\<close> pages for \<open>n\<close> kept assets, and these pages, one after the other,
  show every kept asset once.
\<close>

theorem portfolio_page_shows_filtered_slice:
  fixes d :: portfolio_data and s :: portfolio_page and p :: int
  defines "kept \<equiv> filter (\<lambda>a. 0 < amount a) (assets d)"
  defines "pf \<equiv> d\<lparr>assets := kept\<rparr>"
  defines "rows \<equiv> take 20 (drop (20 * nat (p - 1)) kept)"
  assumes "1 \<le> p"
  shows "portfolio (fetchData (Response d) s) = Some pf \<and>
         render (handlePageChange p (fetchData (Response d) s)) =
           AssetTable (length kept) rows \<lceil>real (length kept) / 20\<rceil> \<and>
         (\<forall>i < length rows. rows ! i = kept ! (20 * nat (p - 1) + i)) \<and>
         length rows = min 20 (length kept - 20 * nat (p - 1)) \<and>
         (\<forall>q. length (currentAssets q pf) \<le> 20) \<and>
         concat (map (\<lambda>j. currentAssets (int j + 1) pf) [0..<nat (totalPages pf)]) = kept"
proof -
  have "portfolio (fetchData (Response d) s) = Some pf"
    by (simp add: fetchData_def kept_def pf_def)
  moreover have "render (handlePageChange p (fetchData (Response d) s)) =
          AssetTable (length kept) (currentAssets p pf) (totalPages pf)"
    by (simp add: render_def handlePageChange_def fetchData_def kept_def pf_def)
  moreover have "currentAssets p pf = rows"
    using \<open>1 \<le> p\<close> by (simp add: currentAssets_page rows_def pf_def)
  moreover have "totalPages pf = \<lceil>real (length kept) / 20\<rceil>"
    by (simp add: totalPages_def itemsPerPage_def pf_def)
  moreover have "\<forall>i < length rows. rows ! i = kept ! (20 * nat (p - 1) + i)"
    by (auto simp: rows_def)
  moreover have "length rows = min 20 (length kept - 20 * nat (p - 1))"
    by (simp add: rows_def)
  moreover have "\<forall>q. length (currentAssets q pf) \<le> 20"
    by (simp add: currentAssets_at_most)
  moreover have "concat (map (\<lambda>j. currentAssets (int j + 1) pf) [0..<nat (totalPages pf)]) = kept"
    using pages_cover[of pf] by (simp add: pf_def)
  ultimately show ?thesis by simp
qed

text \<open>
  The third page of the sample response: 45 assets are kept, the page shows the last
  five of them, and the pagination has three pages.
\<close>

theorem portfolio_page_witness:
  "(1::int) \<le> 3 \<and>
   render (handlePageChange 3 (fetchData (Response sample_data) initial_page)) =
     AssetTable 45 (map sample_asset [42..<47]) 3"
proof -
  have k: "filter (\<lambda>a. 0 < amount a) (assets sample_data) = map sample_asset [2..<47]"
    by (simp add: sample_data_def sample_asset_def upt_rec)
  have r: "drop 40 (map sample_asset [2..<47]) = map sample_asset [42..<47]"
    by (simp add: drop_map)
  have h: "(1::int) \<le> 3" by simp
  show ?thesis
    using portfolio_page_shows_filtered_slice[OF h, of sample_data initial_page]
    by (simp add: k r)
qed


section \<open>Properties of \<open>handleFormChange\<close>\<close>

lemma split_on_nonempty: "split_on sep s \<noteq> []"
  by (induction s) (auto split: list.splits)

lemma map_of_assign_own_other: "k' \<noteq> k \<Longrightarrow> map_of (assign_own obj k v) k' = map_of obj k'"
  by (simp add: assign_own_def update_conv')

lemma map_of_replace_own_other: "k' \<noteq> k \<Longrightarrow> map_of (replace_own k v obj) k' = map_of obj k'"
  by (simp add: replace_own_def update_conv')

lemma map_of_replace_own_same:
  "map_of (replace_own k v obj) k = (if map_of obj k = None then None else Some v)"
  by (simp add: replace_own_def update_conv')

lemma field_not_object: "q \<noteq> [] \<Longrightarrow> \<forall>obj. c \<noteq> JObject obj \<Longrightarrow> field q c = None"
  by (cases q; cases c) auto

lemma write_prop_frame:
  assumes "write_prop e cur lastk v = Inr cur'" and "q \<noteq> []" and "\<not> prefix [lastk] q"
  shows "field q cur' = field q cur"
proof -
  from assms(2) obtain k' q' where q: "q = k' # q'" by (cases q) auto
  with assms(3) have ne: "k' \<noteq> lastk" by simp
  show ?thesis
  proof (cases cur)
    case (JObject obj)
    with assms(1) q ne show ?thesis by (auto simp: map_of_assign_own_other)
  next
    case (JOther x)
    with assms(1) q show ?thesis by (auto split: sum.splits)
  qed (use assms(1) in simp_all)
qed

lemma write_back_frame_other:
  "k' \<noteq> k \<Longrightarrow> field (k' # q') (write_back e cur k c) = field (k' # q') cur"
  by (cases cur) (simp_all add: map_of_replace_own_other)

lemma descend_frame:
  "descend e ks lastk v cur = Updated cur' \<Longrightarrow>
   \<not> prefix q (ks @ [lastk]) \<Longrightarrow> \<not> prefix (ks @ [lastk]) q \<Longrightarrow>
   field q cur' = field q cur"
proof (induction ks arbitrary: cur cur' q)
  case Nil
  from Nil.prems(2) have "q \<noteq> []" by auto
  moreover from Nil.prems(1) have "write_prop e cur lastk v = Inr cur'"
    by (simp split: sum.splits)
  ultimately show ?case using Nil.prems(3) by (simp add: write_prop_frame)
next
  case (Cons k ks)
  then obtain k' q' where q: "q = k' # q'" by (cases q) auto
  from Cons.prems(1) obtain child child' where
    r: "read_prop e cur k = Inr child" and
    d: "descend e ks lastk v child = Updated child'" and
    c': "cur' = write_back e cur k child'"
    by (auto split: sum.splits jsval.splits outcome.splits)
  show ?case
  proof (cases "k' = k")
    case False
    with c' q show ?thesis by (simp add: write_back_frame_other)
  next
    case True
    with Cons.prems q have np1: "\<not> prefix q' (ks @ [lastk])" and np2: "\<not> prefix (ks @ [lastk]) q'"
      by auto
    have ih: "field q' child' = field q' child"
      using Cons.IH[OF d np1 np2] .
    show ?thesis
    proof (cases cur)
      case (JObject obj)
      show ?thesis
      proof (cases "map_of obj k")
        case None
        with c' JObject show ?thesis by (simp add: replace_own_def)
      next
        case (Some c)
        with r JObject have "c = child" by (simp add: get_prop_def)
        with Some c' JObject q True ih show ?thesis by (simp add: map_of_replace_own_same)
      qed
    next
      case (JOther x)
      with c' q show ?thesis by simp
    qed (use r in simp_all)
  qed
qed

lemma descend_missing:
  "i < length ks \<Longrightarrow> read_path e (take (Suc i) ks) cur = Inr JUndefined \<Longrightarrow>
   descend e ks lastk v cur = ReturnPrev"
proof (induction ks arbitrary: i cur)
  case Nil
  then show ?case by simp
next
  case (Cons k ks)
  from Cons.prems(2) obtain child where r: "read_prop e cur k = Inr child"
    and p: "read_path e (take i ks) child = Inr JUndefined"
    by (auto split: sum.splits)
  show ?case
  proof (cases i)
    case 0
    with r p show ?thesis by simp
  next
    case (Suc j)
    with Cons.prems(1) have j: "j < length ks" by simp
    from p Suc have p': "read_path e (take (Suc j) ks) child = Inr JUndefined" by simp
    have "child \<noteq> JUndefined"
    proof
      assume "child = JUndefined"
      with p' j show False by (cases ks) auto
    qed
    moreover have "descend e ks lastk v child = ReturnPrev"
      using Cons.IH[OF j p'] .
    ultimately show ?thesis using r by (cases child) simp_all
  qed
qed

lemma field_Some_object:
  "field (k # ks) c = Some r \<Longrightarrow> \<exists>obj. c = JObject obj"
  by (cases c) auto

lemma descend_effect:
  "field ks (JObject cur) = Some (JObject obj) \<Longrightarrow>
   lastk \<noteq> ''__proto__'' \<or> map_of obj lastk \<noteq> None \<Longrightarrow>
   \<exists>cur'. descend e ks lastk v (JObject cur) = Updated (JObject cur') \<and>
          field (ks @ [lastk]) (JObject cur') = Some v"
proof (induction ks arbitrary: cur)
  case Nil
  then show ?case by (auto simp: assign_own_def update_conv')
next
  case (Cons k ks)
  from Cons.prems obtain c where c: "map_of cur k = Some c" and f: "field ks c = Some (JObject obj)"
    by (auto split: option.splits)
  from f obtain child where child: "c = JObject child"
    by (cases ks) (auto dest: field_Some_object)
  from Cons.IH[of child] f child Cons.prems(2) obtain child' where
    "descend e ks lastk v (JObject child) = Updated (JObject child')"
    "field (ks @ [lastk]) (JObject child') = Some v" by blast
  with c child show ?case by (simp add: get_prop_def map_of_replace_own_same)
qed

lemma descend_object:
  "descend e ks lastk v (JObject cur) = Updated cur' \<Longrightarrow> \<exists>obj. cur' = JObject obj"
  by (cases ks) (auto split: sum.splits jsval.splits outcome.splits)


text \<open>
  On the initial form, a walk that leaves the plain objects: \<open>id\<close> is a string, and if the
  string has no property \<open>foo\<close> the path \<open>id.foo.x\<close> returns the form as it is.
\<close>

lemma handleFormChange_read_below_string:
  "exotic_get e (LStr []) ''foo'' = JUndefined \<Longrightarrow>
   handleFormChange e ''id.foo.x'' v initialFormData = Inr initialFormData"
  by (simp add: handleFormChange_def initialFormData_def get_prop_def)

text \<open>
  Claim C10, as amended. For every path and every value, with \<open>keys\<close> the pieces of the
  path between its dots: a state that \<open>handleFormChange\<close> returns differs from the previous
  state only at the addressed field, that is, every field whose key list is neither a
  prefix nor an extension of \<open>keys\<close> (the bot id, the other fields of the config) is as
  before. If the read of a key before the last one yields \<open>undefined\<close> (the key is neither
  an own property of the value that the walk has reached nor inherited by it), the previous
  state is returned unchanged. And if the keys before the last one lead through plain
  objects by own properties, the returned state has the new value at the addressed field.
\<close>

theorem handleFormChange_frame:
  fixes e :: "'x engine" and path :: string
  defines "keys \<equiv> split_on CHR ''.'' path"
  shows
    "(\<forall>s' q. handleFormChange e path v prev = Inr s' \<and>
             \<not> prefix q keys \<and> \<not> prefix keys q \<longrightarrow>
             field q (JObject s') = field q (JObject prev)) \<and>
     (\<forall>i. i < length keys - 1 \<and>
          read_path e (take (Suc i) keys) (JObject prev) = Inr JUndefined \<longrightarrow>
          handleFormChange e path v prev = Inr prev) \<and>
     (\<forall>obj. field (butlast keys) (JObject prev) = Some (JObject obj) \<and>
           (last keys \<noteq> ''__proto__'' \<or> map_of obj (last keys) \<noteq> None) \<longrightarrow>
           (\<exists>s'. handleFormChange e path v prev = Inr s' \<and>
                 field keys (JObject s') = Some v))"
proof -
  have ne: "keys \<noteq> []"
    by (simp add: keys_def split_on_nonempty)
  then have ks: "butlast keys @ [last keys] = keys"
    by simp
  have frame: "field q (JObject s') = field q (JObject prev)"
    if "handleFormChange e path v prev = Inr s'"
      and "\<not> prefix q keys" and "\<not> prefix keys q" for s' q
  proof (cases "descend e (butlast keys) (last keys) v (JObject prev)")
    case ReturnPrev
    with that(1) show ?thesis
      by (simp add: handleFormChange_def keys_def)
  next
    case (Threw err)
    with that(1) show ?thesis
      by (simp add: handleFormChange_def keys_def)
  next
    case (Updated c)
    then obtain s where c: "c = JObject s"
      using descend_object by blast
    with Updated that(1) have "s = s'"
      by (simp add: handleFormChange_def keys_def)
    with Updated c that(2,3) ks show ?thesis
      using descend_frame[of e "butlast keys" "last keys" v "JObject prev" "JObject s'" q] by simp
  qed
  have missing: "handleFormChange e path v prev = Inr prev"
    if "i < length keys - 1"
      and "read_path e (take (Suc i) keys) (JObject prev) = Inr JUndefined" for i
  proof -
    from that(1) have "i < length (butlast keys)" by simp
    moreover from that(1) have "take (Suc i) (butlast keys) = take (Suc i) keys"
      by (simp add: take_butlast)
    ultimately have "descend e (butlast keys) (last keys) v (JObject prev) = ReturnPrev"
      using that(2) descend_missing[of i "butlast keys" e "JObject prev" "last keys" v]
      by simp
    then show ?thesis
      by (simp add: handleFormChange_def keys_def)
  qed
  have effect: "\<exists>s'. handleFormChange e path v prev = Inr s' \<and>
                 field keys (JObject s') = Some v"
    if "field (butlast keys) (JObject prev) = Some (JObject obj)"
      and "last keys \<noteq> ''__proto__'' \<or> map_of obj (last keys) \<noteq> None" for obj
  proof -
    from descend_effect[OF that, of e v] ks obtain s' where
      "descend e (butlast keys) (last keys) v (JObject prev) = Updated (JObject s')"
      "field keys (JObject s') = Some v" by auto
    then show ?thesis
      by (auto simp: handleFormChange_def keys_def)
  qed
  from frame missing effect show ?thesis by blast
qed

text \<open>
  On the initial form, whatever the engine does with values that are not plain objects:
  the path \<open>config.api_key\<close> sets that field and leaves the bot id and the timeframe as
  they were, and the path \<open>config.nothing.x\<close>, whose middle key is neither a property of
  the config nor inherited, returns the initial form.
\<close>

theorem handleFormChange_frame_witness:
  "\<forall>e. (\<exists>s'. handleFormChange (e\<lparr>inherited := object_inherited\<rparr>) ''config.api_key''
              (JOther (LStr ''k1'')) initialFormData = Inr s' \<and>
           field [''config'', ''api_key''] (JObject s') = Some (JOther (LStr ''k1'')) \<and>
           field [''id''] (JObject s') = Some (JOther (LStr [])) \<and>
           field [''config'', ''timeframe''] (JObject s') = Some (JOther (LStr ''5m''))) \<and>
     handleFormChange (e\<lparr>inherited := object_inherited\<rparr>) ''config.nothing.x''
       (JOther (LStr ''k1'')) initialFormData = Inr initialFormData"
proof
  fix e0 :: "leaf engine"
  define e where "e = e0\<lparr>inherited := object_inherited\<rparr>"
  let ?v = "JOther (LStr ''k1'') :: leaf jsval"
  obtain cfg where cfg: "field [''config''] (JObject initialFormData) = Some (JObject cfg)"
    and key: "map_of cfg ''api_key'' \<noteq> None"
    by (simp add: initialFormData_def)
  have gone: "read_path e [''config'', ''nothing''] (JObject initialFormData) = Inr JUndefined"
    by (simp add: e_def initialFormData_def get_prop_def object_inherited_def
        object_prototype_def)
  have k1: "split_on CHR ''.'' ''config.api_key'' = [''config'', ''api_key'']"
    by simp
  have k2: "split_on CHR ''.'' ''config.nothing.x'' = [''config'', ''nothing'', ''x'']"
    by simp
  note t1 = handleFormChange_frame[of e "''config.api_key''" ?v initialFormData, unfolded k1]
  note t2 = handleFormChange_frame[of e "''config.nothing.x''" ?v initialFormData, unfolded k2]
  from t1 have frame: "field q (JObject s') = field q (JObject initialFormData)"
    if "handleFormChange e ''config.api_key'' ?v initialFormData = Inr s'"
      and "\<not> prefix q [''config'', ''api_key'']" and "\<not> prefix [''config'', ''api_key''] q"
    for s' q
    using that by blast
  from t1 have effect: "\<exists>s'. handleFormChange e ''config.api_key'' ?v
        initialFormData = Inr s' \<and> field [''config'', ''api_key''] (JObject s') = Some ?v"
    if "field (butlast [''config'', ''api_key'']) (JObject initialFormData) = Some (JObject obj)"
      and "map_of obj (last [''config'', ''api_key'']) \<noteq> None" for obj
    using that by blast
  from t2 have missing: "handleFormChange e ''config.nothing.x'' ?v
        initialFormData = Inr initialFormData"
    if "i < length [''config'', ''nothing'', ''x''] - 1"
      and "read_path e (take (Suc i) [''config'', ''nothing'', ''x'']) (JObject initialFormData) =
           Inr JUndefined"
    for i
    using that by blast
  from effect[of cfg] cfg key obtain s' where
    r: "handleFormChange e ''config.api_key'' ?v initialFormData = Inr s'"
    and f: "field [''config'', ''api_key''] (JObject s') = Some ?v"
    by auto
  have "field [''id''] (JObject s') = field [''id''] (JObject initialFormData)"
    by (rule frame[OF r]) simp_all
  moreover have "field [''config'', ''timeframe''] (JObject s') =
      field [''config'', ''timeframe''] (JObject initialFormData)"
    by (rule frame[OF r]) simp_all
  moreover have "handleFormChange e ''config.nothing.x'' ?v initialFormData =
      Inr initialFormData"
    by (rule missing[of 1]) (use gone in simp_all)
  ultimately show "(\<exists>s'. handleFormChange (e0\<lparr>inherited := object_inherited\<rparr>) ''config.api_key'' ?v
              initialFormData = Inr s' \<and>
           field [''config'', ''api_key''] (JObject s') = Some ?v \<and>
           field [''id''] (JObject s') = Some (JOther (LStr [])) \<and>
           field [''config'', ''timeframe''] (JObject s') = Some (JOther (LStr ''5m''))) \<and>
     handleFormChange (e0\<lparr>inherited := object_inherited\<rparr>) ''config.nothing.x'' ?v
       initialFormData = Inr initialFormData"
    using r f unfolding e_def by (auto simp: initialFormData_def)
qed

text \<open>
  Claim C10 as it was stated fails for a key that does not exist in the form state but is
  inherited. No object of the initial form has a property \<open>__proto__\<close>. For the path
  \<open>__proto__.__proto__.x\<close> the first read gives \<open>Object.prototype\<close> and the second gives
  \<open>null\<close>; neither is \<open>undefined\<close>, so the loop ends and the assignment to a property of
  \<open>null\<close> throws a \<open>TypeError\<close>: the state is not returned. The values that are not plain
  objects are never reached on this path, so this holds for every engine.
\<close>

theorem handleFormChange_missing_key_counterexample:
  "\<forall>e. field [''__proto__''] (JObject initialFormData) = None \<and>
       handleFormChange (e\<lparr>inherited := object_inherited\<rparr>) ''__proto__.__proto__.x''
         (JOther (LStr ''k1'')) initialFormData = Inl TypeError"
  by (simp add: handleFormChange_def initialFormData_def get_prop_def object_inherited_def
      object_prototype_def)


section \<open>Properties of the Replay Buffer\<close>

lemma ring_ok_empty: "ring_ok (empty_buffer n)"
  by (simp add: ring_ok_def empty_buffer_def)

lemma buffer_size_observe: "buffer_size (observe t b) = buffer_size b"
  by (simp add: observe_def)

lemma ring_ok_observe: "ring_ok b \<Longrightarrow> ring_ok (observe t b)"
  unfolding ring_ok_def observe_def
  by (auto simp: mod_Suc split: if_splits)

lemma rotate_after_overwrite:
  assumes "p < length xs"
  shows "drop (Suc p mod length xs) (xs[p := t]) @ take (Suc p mod length xs) (xs[p := t]) =
         drop (Suc p) xs @ take p xs @ [t]"
proof (cases "Suc p < length xs")
  case True
  then show ?thesis
    by (simp add: take_Suc_conv_app_nth)
next
  case False
  with assms have e: "Suc p = length xs" by simp
  then have "Suc p mod length xs = 0" by simp
  moreover have "xs[p := t] = take p xs @ [t]"
    using assms e by (simp add: upd_conv_take_nth_drop)
  ultimately show ?thesis using e by simp
qed

lemma drop_oldest:
  assumes "p < length xs"
  shows "drop (length (drop p xs @ take p xs @ [t]) - length xs) (drop p xs @ take p xs @ [t]) =
         drop (Suc p) xs @ take p xs @ [t]"
proof -
  have "length (drop p xs @ take p xs @ [t]) - length xs = 1"
    using assms by simp
  moreover have "drop 1 (drop p xs @ take p xs @ [t]) = drop (Suc p) xs @ take p xs @ [t]"
    using assms by (simp add: drop_Suc tl_drop flip: drop_Suc)
  ultimately show ?thesis by simp
qed

lemma contents_observe:
  assumes "ring_ok b"
  shows "contents (observe t b) = retain (buffer_size b) (contents b @ [t])"
proof (cases "buffer_size b = 0")
  case True
  with assms show ?thesis by (simp add: observe_def contents_def retain_def ring_ok_def)
next
  case pos: False
  show ?thesis
  proof (cases "length (storage b) < buffer_size b")
    case True
    with assms have p: "position b = length (storage b)" by (simp add: ring_ok_def)
    show ?thesis
    proof (cases "Suc (length (storage b)) < buffer_size b")
      case True
      with p pos show ?thesis
        by (simp add: observe_def contents_def retain_def)
    next
      case False
      with True have e: "Suc (length (storage b)) = buffer_size b" by simp
      then have "Suc (length (storage b)) mod buffer_size b = 0" by simp
      with True p pos e show ?thesis
        by (simp add: observe_def contents_def retain_def)
    qed
  next
    case False
    with assms have full: "length (storage b) = buffer_size b" and p: "position b < length (storage b)"
      using pos by (auto simp: ring_ok_def)
    from full pos have "contents (observe t b) =
        drop (Suc (position b) mod length (storage b)) ((storage b)[position b := t]) @
        take (Suc (position b) mod length (storage b)) ((storage b)[position b := t])"
      by (simp add: observe_def contents_def)
    also have "\<dots> = drop (Suc (position b)) (storage b) @ take (position b) (storage b) @ [t]"
      by (rule rotate_after_overwrite[OF p])
    also have "\<dots> = retain (buffer_size b) (contents b @ [t])"
      using drop_oldest[OF p, of t] full by (simp add: contents_def retain_def)
    finally show ?thesis .
  qed
qed

lemma retain_retain_append:
  "retain n (retain n xs @ ys) = retain n (xs @ ys)"
  by (cases "n \<le> length xs") (simp_all add: retain_def add.commute)

lemma contents_observe_all:
  "ring_ok b \<Longrightarrow>
   contents (observe_all ts b) = retain (buffer_size b) (contents b @ ts)"
proof (induction ts arbitrary: b)
  case Nil
  then show ?case
    by (auto simp: retain_def contents_def ring_ok_def)
next
  case (Cons t ts)
  have "contents (observe_all (t # ts) b) =
        retain (buffer_size b) (contents (observe t b) @ ts)"
    using Cons.IH[OF ring_ok_observe[OF Cons.prems], of t] by (simp add: buffer_size_observe)
  also have "\<dots> = retain (buffer_size b) (contents b @ t # ts)"
    using retain_retain_append[of "buffer_size b" "contents b @ [t]" ts]
    by (simp add: contents_observe[OF Cons.prems])
  finally show ?case .
qed

lemma contents_from_empty:
  "contents (observe_all ts (empty_buffer n)) = drop (length ts - n) ts"
  using contents_observe_all[OF ring_ok_empty, of ts n]
  by (simp add: retain_def empty_buffer_def contents_def)

text \<open>
  Claim C4. After any sequence of transitions has been inserted with \<open>observe\<close> into an
  empty Replay Buffer of capacity \<open>n\<close>, the buffer holds the last \<open>n\<close> of them in
  insertion order (all of them while there are at most \<open>n\<close>): for more than \<open>n\<close>
  insertions these are exactly the \<open>n\<close> most recent ones. With capacity 3, inserting
  \<open>T1\<close> to \<open>T5\<close> leaves \<open>T3\<close>, \<open>T4\<close>, \<open>T5\<close>.
\<close>

theorem replay_buffer_keeps_most_recent:
  "contents (observe_all ts (empty_buffer n)) = drop (length ts - n) ts \<and>
   length (contents (observe_all ts (empty_buffer n))) = min n (length ts) \<and>
   contents (observe_all [T1, T2, T3, T4, T5] (empty_buffer 3)) = [T3, T4, T5]"
proof -
  have "length (contents (observe_all ts (empty_buffer n))) = min n (length ts)"
    unfolding contents_from_empty by simp
  moreover have "contents (observe_all [T1, T2, T3, T4, T5] (empty_buffer 3)) = [T3, T4, T5]"
    unfolding contents_from_empty by simp
  ultimately show ?thesis
    using contents_from_empty[of ts n] by simp
qed

end
